theory Spec2Isabelle
  imports Complex_Main
begin

section \<open>Learning rate schedulers (creme/optim/schedulers.py)\<close>

text \<open>
  A shallow embedding of the four scheduler classes \<open>Constant\<close>, \<open>Cyclic\<close>,
  \<open>InverseScaling\<close> and \<open>Optimal\<close>. Each class is a record of its attributes, each
  \<open>__init__\<close> a function that returns the record or the exception it raises, each
  \<open>get\<close> a function of the record and the iteration counter \<open>t\<close>.

  Python's \<open>int\<close> is \<open>int\<close>. Python's \<open>float\<close> is modelled twice. In the first model it
  is \<open>real\<close> and arithmetic is exact: the functions named after the methods (\<open>Cyclic_get\<close>,
  \<open>InverseScaling_get\<close>, \<open>Optimal_get\<close>) compute the value of the expression the method
  evaluates. In the second model (the functions with the suffix \<open>_double\<close>) every float
  operation is rounded to the nearest IEEE binary64 number, as the interpreter does; it is
  used where a property depends on rounding. Neither model has infinities or NaN.
\<close>

subsection \<open>Python values, exceptions and arithmetic\<close>

text \<open>
  The exceptions the module can raise: a failed \<open>assert\<close>, \<open>math.sqrt\<close> of a negative
  number (\<open>ValueError: math domain error\<close>), a division or modulo by zero, an int or a power
  too large for a float (\<open>OverflowError\<close>, in the rounded model only), and whatever the
  external loss object raises from \<open>gradient\<close>.
\<close>

datatype error = AssertionError | ValueError | ZeroDivisionError | OverflowError | OtherError

text \<open>A Python real number, an int or a float: the argument \<open>c\<close> of \<open>Cyclic\<close>.\<close>

datatype pynum = PyInt int | PyFloat real

text \<open>The result of \<open>pow\<close> on an int and a float: a float or a complex number.\<close>

datatype pyval = FloatV real | ComplexV complex

text \<open>\<open>x / y\<close> on floats, and on two ints (true division): raises when \<open>y\<close> is zero.\<close>

definition truediv :: "real \<Rightarrow> real \<Rightarrow> error + real" where
  "truediv x y = (if y = 0 then Inl ZeroDivisionError else Inr (x / y))"

text \<open>
  \<open>a % b\<close> on ints: raises when \<open>b\<close> is zero; otherwise the remainder of the floor
  division, which has the sign of \<open>b\<close>. That is \<open>mod\<close> on \<open>int\<close>.
\<close>

definition py_mod :: "int \<Rightarrow> int \<Rightarrow> error + int" where
  "py_mod a b = (if b = 0 then Inl ZeroDivisionError else Inr (a mod b))"

text \<open>\<open>math.sqrt(x)\<close>: raises \<open>ValueError\<close> on a negative argument.\<close>

definition math_sqrt :: "real \<Rightarrow> error + real" where
  "math_sqrt x = (if x < 0 then Inl ValueError else Inr (sqrt x))"

text \<open>\<open>max(a, b)\<close>: the first argument unless the second is strictly greater.\<close>

definition py_max :: "real \<Rightarrow> real \<Rightarrow> real" where
  "py_max a b = (if b > a then b else a)"

text \<open>
  \<open>pow(b, p)\<close> for an int \<open>b\<close> and a float \<open>p\<close> (CPython converts \<open>b\<close> to float and
  calls \<open>float_pow\<close>): anything to the power zero is \<open>1.0\<close>; zero to a negative power
  raises \<open>ZeroDivisionError\<close>; a negative base with a non-integral exponent is handed to
  complex exponentiation, \<open>|b|\<^sup>p (cos (\<pi> p) + i sin (\<pi> p))\<close>; otherwise the real power.
\<close>

definition py_pow :: "int \<Rightarrow> real \<Rightarrow> error + pyval" where
  "py_pow b p =
     (if p = 0 then Inr (FloatV 1)
      else if b = 0 then (if p < 0 then Inl ZeroDivisionError else Inr (FloatV 0))
      else if b < 0 \<and> p \<noteq> of_int \<lfloor>p\<rfloor>
        then Inr (ComplexV (of_real (real_of_int (- b) powr p) * cis (pi * p)))
      else if b < 0 then Inr (FloatV (real_of_int b powi \<lfloor>p\<rfloor>))
      else Inr (FloatV (real_of_int b powr p)))"

text \<open>\<open>x / d\<close> for a float \<open>x\<close> and a float or complex \<open>d\<close>: raises when \<open>d\<close> is zero.\<close>

fun truediv_val :: "real \<Rightarrow> pyval \<Rightarrow> error + pyval" where
  "truediv_val x (FloatV y) =
     (if y = 0 then Inl ZeroDivisionError else Inr (FloatV (x / y)))"
| "truediv_val x (ComplexV z) =
     (if z = 0 then Inl ZeroDivisionError else Inr (ComplexV (of_real x / z)))"

text \<open>Sequencing of two computations that may raise: the first exception propagates.\<close>

definition bind :: "error + 'a \<Rightarrow> ('a \<Rightarrow> error + 'b) \<Rightarrow> error + 'b" where
  "bind m f = (case m of Inl e \<Rightarrow> Inl e | Inr x \<Rightarrow> f x)"

subsection \<open>Rounding to IEEE double precision\<close>

text \<open>
  A finite double is \<open>m * 2\<^sup>e\<close> with an integer \<open>m\<close>, \<open>|m| < 2\<^sup>5\<^sup>3\<close>, and \<open>e \<ge> -1074\<close>. Every
  float operation of the interpreter returns the double nearest to the exact result, a tie
  going to the even \<open>m\<close>. \<open>round_even\<close> is that rounding on the integers; \<open>ulp_exp x\<close> is the
  exponent \<open>e\<close> of the doubles around \<open>x\<close> (53 significant bits, and no finer than
  \<open>2\<^sup>-\<^sup>1\<^sup>0\<^sup>7\<^sup>4\<close>, the spacing of the subnormal numbers); \<open>to_double x\<close> is the nearest double.
  The exponent is not bounded above: \<open>finite_double\<close> is the check that a result is below
  \<open>2\<^sup>1\<^sup>0\<^sup>2\<^sup>4\<close>, made where the interpreter raises \<open>OverflowError\<close>. Where the interpreter
  would instead return an infinity (an overflowing \<open>+\<close>, \<open>*\<close> or \<open>/\<close> on floats) the model
  keeps the finite rounded value.
\<close>

definition round_even :: "real \<Rightarrow> int" where
  "round_even y =
     (if y - of_int \<lfloor>y\<rfloor> < 1 / 2 then \<lfloor>y\<rfloor>
      else if 1 / 2 < y - of_int \<lfloor>y\<rfloor> then \<lfloor>y\<rfloor> + 1
      else if even \<lfloor>y\<rfloor> then \<lfloor>y\<rfloor> else \<lfloor>y\<rfloor> + 1)"

definition ulp_exp :: "real \<Rightarrow> int" where
  "ulp_exp x = max \<lfloor>log 2 \<bar>x\<bar>\<rfloor> (- 1022) - 52"

definition to_double :: "real \<Rightarrow> real" where
  "to_double x =
     (if x = 0 then 0
      else of_int (round_even (x / 2 powi ulp_exp x)) * 2 powi ulp_exp x)"

definition finite_double :: "real \<Rightarrow> error + real" where
  "finite_double y = (if 2 ^ 1024 \<le> \<bar>y\<bar> then Inl OverflowError else Inr y)"

text \<open>\<open>float(n)\<close> for an int \<open>n\<close>, as done when an int meets a float in an operation.\<close>

definition int_to_double :: "int \<Rightarrow> error + real" where
  "int_to_double n = finite_double (to_double (real_of_int n))"


text \<open>
  \<open>pow(b, p)\<close> in double precision: \<open>b\<close> is converted to a float first, then the cases of
  \<open>float_pow\<close> as in \<open>py_pow\<close>, the real power rounded to a double (the C library's \<open>pow\<close>
  is taken to round correctly) and \<open>OverflowError\<close> when it is too large. The components
  of a complex result are left unrounded.
\<close>

definition py_pow_double :: "int \<Rightarrow> real \<Rightarrow> error + pyval" where
  "py_pow_double b p =
     bind (int_to_double b) (\<lambda>x.
       if p = 0 then Inr (FloatV 1)
       else if x = 0 then (if p < 0 then Inl ZeroDivisionError else Inr (FloatV 0))
       else if x < 0 \<and> p \<noteq> of_int \<lfloor>p\<rfloor>
         then Inr (ComplexV (of_real ((- x) powr p) * cis (pi * p)))
       else if x < 0 then bind (finite_double (to_double (x powi \<lfloor>p\<rfloor>))) (\<lambda>r. Inr (FloatV r))
       else bind (finite_double (to_double (x powr p))) (\<lambda>r. Inr (FloatV r)))"

text \<open>\<open>x / d\<close> in double precision for a float \<open>x\<close> and a float or complex \<open>d\<close>.\<close>

fun truediv_val_double :: "real \<Rightarrow> pyval \<Rightarrow> error + pyval" where
  "truediv_val_double x (FloatV y) =
     (if y = 0 then Inl ZeroDivisionError else Inr (FloatV (to_double (x / y))))"
| "truediv_val_double x (ComplexV z) =
     (if z = 0 then Inl ZeroDivisionError else Inr (ComplexV (of_real x / z)))"

subsection \<open>Constant\<close>

record Constant =
  learning_rate :: real



subsection \<open>Cyclic\<close>

record Cyclic =
  lr1 :: real
  lr2 :: real
  c :: int

text \<open>\<open>c > 0\<close> and \<open>isinstance(c, int)\<close> on a Python number.\<close>

fun num_gt0 :: "pynum \<Rightarrow> bool" where
  "num_gt0 (PyInt n) = (n > 0)"
| "num_gt0 (PyFloat x) = (x > 0)"

fun isinstance_int :: "pynum \<Rightarrow> bool" where
  "isinstance_int (PyInt n) = True"
| "isinstance_int (PyFloat x) = False"

text \<open>
  \<open>Cyclic.__init__\<close>: the two \<open>assert\<close> statements in order, then the attributes are
  stored. After the second assertion \<open>c\<close> is an int, which is what the record holds.
\<close>

definition Cyclic_init :: "real \<Rightarrow> real \<Rightarrow> pynum \<Rightarrow> error + Cyclic" where
  "Cyclic_init a b cv =
     (if \<not> (a \<ge> b) then Inl AssertionError
      else if \<not> (num_gt0 cv \<and> isinstance_int cv) then Inl AssertionError
      else (case cv of
              PyInt n \<Rightarrow> Inr \<lparr>lr1 = a, lr2 = b, c = n\<rparr>
            | PyFloat x \<Rightarrow> Inl AssertionError))"

text \<open>
  \<open>Cyclic.get\<close>: \<open>ti = ((t-1) % self.c + 1) / self.c\<close>, then
  \<open>(1 - ti) * self.lr1 + ti * self.lr2\<close>.
\<close>

definition Cyclic_get :: "Cyclic \<Rightarrow> int \<Rightarrow> error + real" where
  "Cyclic_get self t =
     bind (py_mod (t - 1) (c self)) (\<lambda>m.
     bind (truediv (real_of_int (m + 1)) (real_of_int (c self))) (\<lambda>ti.
       Inr ((1 - ti) * lr1 self + ti * lr2 self)))"


subsection \<open>InverseScaling\<close>

record InverseScaling =
  learning_rate :: real
  power :: real

definition InverseScaling_init :: "real \<Rightarrow> real \<Rightarrow> InverseScaling" where
  "InverseScaling_init lr p = \<lparr>learning_rate = lr, power = p\<rparr>"

text \<open>\<open>InverseScaling.get\<close>: \<open>self.learning_rate / pow(t + 1, self.power)\<close>.\<close>

definition InverseScaling_get :: "InverseScaling \<Rightarrow> int \<Rightarrow> error + pyval" where
  "InverseScaling_get self t =
     bind (py_pow (t + 1) (power self)) (\<lambda>d.
       truediv_val (InverseScaling.learning_rate self) d)"

text \<open>\<open>InverseScaling.get\<close> in double precision.\<close>

definition InverseScaling_get_double :: "InverseScaling \<Rightarrow> int \<Rightarrow> error + pyval" where
  "InverseScaling_get_double self t =
     bind (py_pow_double (t + 1) (power self)) (\<lambda>d.
       truediv_val_double (InverseScaling.learning_rate self) d)"

subsection \<open>Optimal\<close>

text \<open>
  The loss object is external; the scheduler only calls its \<open>gradient(y_pred, y_true)\<close>,
  which returns a float or raises.
\<close>

record Loss =
  gradient :: "real \<Rightarrow> real \<Rightarrow> error + real"

record Optimal =
  loss :: Loss
  alpha :: real
  t0 :: real

text \<open>
  \<open>Optimal.__init__\<close>, line by line:
  \<open>typw = math.sqrt(1. / math.sqrt(self.alpha))\<close>,
  \<open>initial_eta0 = typw / max(1.0, self.loss.gradient(-typw, 1.0))\<close>,
  \<open>self.t0 = 1. / (initial_eta0 * self.alpha)\<close>.
\<close>

definition Optimal_typw :: "real \<Rightarrow> error + real" where
  "Optimal_typw a =
     bind (math_sqrt a) (\<lambda>r.
     bind (truediv 1 r) (\<lambda>q.
       math_sqrt q))"

definition Optimal_init :: "Loss \<Rightarrow> real \<Rightarrow> error + Optimal" where
  "Optimal_init L a =
     bind (Optimal_typw a) (\<lambda>typw.
     bind (gradient L (- typw) 1) (\<lambda>g.
     bind (truediv typw (py_max 1 g)) (\<lambda>initial_eta0.
     bind (truediv 1 (initial_eta0 * a)) (\<lambda>t0v.
       Inr \<lparr>loss = L, alpha = a, t0 = t0v\<rparr>))))"

text \<open>\<open>Optimal.get\<close>: \<open>1. / (self.alpha * (self.t0 + t))\<close>.\<close>

definition Optimal_get :: "Optimal \<Rightarrow> int \<Rightarrow> error + real" where
  "Optimal_get self t = truediv 1 (alpha self * (t0 self + real_of_int t))"

section \<open>Properties\<close>

subsection \<open>Helper facts\<close>

lemma bind_Inr [simp]: "bind (Inr x) f = f x"
  by (simp add: bind_def)

lemma bind_Inl [simp]: "bind (Inl e) f = Inl e"
  by (simp add: bind_def)

lemma Cyclic_init_Inr:
  "Cyclic_init a b cv = Inr s \<longleftrightarrow>
     (\<exists>n. cv = PyInt n \<and> 0 < n \<and> b \<le> a \<and> s = \<lparr>lr1 = a, lr2 = b, c = n\<rparr>)"
  by (cases cv) (auto simp: Cyclic_init_def)

lemma Cyclic_get_pos:
  "0 < n \<Longrightarrow> Cyclic_get \<lparr>lr1 = a, lr2 = b, c = n\<rparr> t =
     Inr ((1 - real_of_int ((t - 1) mod n + 1) / real_of_int n) * a
          + real_of_int ((t - 1) mod n + 1) / real_of_int n * b)"
  by (simp add: Cyclic_get_def py_mod_def truediv_def)

lemma py_pow_pos: "0 < b \<Longrightarrow> py_pow b p = Inr (FloatV (real_of_int b powr p))"
  by (simp add: py_pow_def)

lemma InverseScaling_get_nonneg:
  "0 \<le> t \<Longrightarrow> InverseScaling_get (InverseScaling_init lr p) t =
     Inr (FloatV (lr / real_of_int (t + 1) powr p))"
  by (simp add: InverseScaling_get_def InverseScaling_init_def py_pow_pos)

lemma py_max_eq: "py_max a b = max a b"
  by (simp add: py_max_def max_def)

lemma Optimal_typw_pos: "0 < a \<Longrightarrow> Optimal_typw a = Inr (sqrt (1 / sqrt a))"
  by (simp add: Optimal_typw_def math_sqrt_def truediv_def)

lemma Optimal_eta0_bounds:
  assumes "0 < a"
  shows "0 < sqrt (1 / sqrt a) / max 1 g" and "sqrt (1 / sqrt a) / max 1 g \<le> sqrt (1 / sqrt a)"
proof -
  have w: "0 < sqrt (1 / sqrt a)" using assms by simp
  have m: "1 \<le> max 1 g" by simp
  show "0 < sqrt (1 / sqrt a) / max 1 g" using w m by simp
  have "sqrt (1 / sqrt a) / max 1 g \<le> sqrt (1 / sqrt a) / 1"
    using w m by (intro divide_left_mono) simp_all
  then show "sqrt (1 / sqrt a) / max 1 g \<le> sqrt (1 / sqrt a)" by simp
qed

lemma Optimal_init_pos:
  assumes "0 < a" and "gradient L (- sqrt (1 / sqrt a)) 1 = Inr g"
  shows "Optimal_init L a =
           Inr \<lparr>loss = L, alpha = a, t0 = 1 / (sqrt (1 / sqrt a) / max 1 g * a)\<rparr>"
proof -
  have m: "max 1 g \<noteq> 0" by (simp add: max_def)
  have "sqrt (1 / sqrt a) / max 1 g * a \<noteq> 0"
    using Optimal_eta0_bounds(1)[OF assms(1), of g] assms(1) by simp
  then show ?thesis
    using assms m by (simp add: Optimal_init_def Optimal_typw_pos truediv_def py_max_eq)
qed


lemma sqrt_10000: "sqrt (1 / 10000) = 1 / 100"
  by (rule real_sqrt_unique) (simp_all add: power2_eq_square)

lemma sqrt_100: "sqrt 100 = 10"
  by (rule real_sqrt_unique) simp_all

subsection \<open>Facts about rounding\<close>

lemma round_even_of_int: "round_even (of_int n) = n"
  by (simp add: round_even_def)

lemma round_even_cases:
  "round_even y = \<lfloor>y\<rfloor> \<and> y - of_int \<lfloor>y\<rfloor> \<le> 1 / 2 \<or>
   round_even y = \<lfloor>y\<rfloor> + 1 \<and> 1 / 2 \<le> y - of_int \<lfloor>y\<rfloor>"
  by (auto simp: round_even_def)

lemma round_even_mono:
  assumes "y \<le> z"
  shows "round_even y \<le> round_even z"
proof (cases "\<lfloor>y\<rfloor> = \<lfloor>z\<rfloor>")
  case True
  have "y - of_int \<lfloor>y\<rfloor> \<le> z - of_int \<lfloor>z\<rfloor>" using assms True by simp
  then show ?thesis unfolding round_even_def using True by auto
next
  case False
  then have "\<lfloor>y\<rfloor> + 1 \<le> \<lfloor>z\<rfloor>" using floor_mono[OF assms] by linarith
  moreover have "round_even y \<le> \<lfloor>y\<rfloor> + 1" using round_even_cases[of y] by linarith
  moreover have "\<lfloor>z\<rfloor> \<le> round_even z" using round_even_cases[of z] by linarith
  ultimately show ?thesis by linarith
qed


lemma floor_log2_eq:
  assumes "2 powi k \<le> x" "x < 2 powi (k + 1)"
  shows "\<lfloor>log 2 x\<rfloor> = k"
proof -
  have "0 < (2::real) powi k" by simp
  with assms(1) have x: "0 < x" by linarith
  have "(2::real) powr real_of_int k = 2 powi k"
    by (simp add: powr_real_of_int')
  moreover have "(2::real) powr (real_of_int k + 1) = 2 powi (k + 1)"
    using powr_real_of_int'[of 2 "k + 1"] by (simp add: add.commute)
  ultimately have "2 powr real_of_int k \<le> x \<and> x < 2 powr (real_of_int k + 1)"
    using assms by simp
  then show ?thesis using floor_log_eq_powr_iff[OF x, of 2 k] by simp
qed

lemma log2_bounds:
  assumes "0 < x"
  shows "2 powi \<lfloor>log 2 x\<rfloor> \<le> x" and "x < 2 powi (\<lfloor>log 2 x\<rfloor> + 1)"
proof -
  have "2 powr real_of_int \<lfloor>log 2 x\<rfloor> \<le> x \<and> x < 2 powr (real_of_int \<lfloor>log 2 x\<rfloor> + 1)"
    using floor_log_eq_powr_iff[OF assms, of 2 "\<lfloor>log 2 x\<rfloor>"] by simp
  moreover have "(2::real) powr real_of_int \<lfloor>log 2 x\<rfloor> = 2 powi \<lfloor>log 2 x\<rfloor>"
    by (simp add: powr_real_of_int')
  moreover have "(2::real) powr (real_of_int \<lfloor>log 2 x\<rfloor> + 1) = 2 powi (\<lfloor>log 2 x\<rfloor> + 1)"
    using powr_real_of_int'[of 2 "\<lfloor>log 2 x\<rfloor> + 1"] by (simp add: add.commute)
  ultimately show "2 powi \<lfloor>log 2 x\<rfloor> \<le> x" and "x < 2 powi (\<lfloor>log 2 x\<rfloor> + 1)" by simp_all
qed

lemma ulp_exp_eq:
  assumes "2 powi k \<le> \<bar>x\<bar>" "\<bar>x\<bar> < 2 powi (k + 1)" "- 1022 \<le> k"
  shows "ulp_exp x = k - 52"
  using floor_log2_eq[OF assms(1,2)] assms(3) by (simp add: ulp_exp_def)

lemma ulp_exp_mono:
  assumes "0 < x" "x \<le> y"
  shows "ulp_exp x \<le> ulp_exp y"
proof -
  have "log 2 x \<le> log 2 y" using assms by simp
  then have "\<lfloor>log 2 x\<rfloor> \<le> \<lfloor>log 2 y\<rfloor>" by (rule floor_mono)
  then show ?thesis using assms by (simp add: ulp_exp_def)
qed

lemma to_double_eval:
  assumes "2 powi k \<le> \<bar>x\<bar>" "\<bar>x\<bar> < 2 powi (k + 1)" "- 1022 \<le> k"
  shows "to_double x = of_int (round_even (x / 2 powi (k - 52))) * 2 powi (k - 52)"
proof -
  have "0 < (2::real) powi k" by simp
  with assms(1) have "0 < \<bar>x\<bar>" by linarith
  then have "x \<noteq> 0" by simp
  then show ?thesis by (simp add: to_double_def ulp_exp_eq[OF assms])
qed


lemma to_double_1: "to_double 1 = 1"
  using to_double_eval[of 0 1] by (simp add: round_even_def)

lemma to_double_upper:
  assumes "0 < x"
  shows "to_double x \<le> 2 powi (ulp_exp x + 53)"
proof -
  let ?e = "ulp_exp x"
  have e: "\<lfloor>log 2 x\<rfloor> + 1 \<le> ?e + 53" using assms by (simp add: ulp_exp_def)
  have "x < 2 powi (\<lfloor>log 2 x\<rfloor> + 1)" using log2_bounds(2)[OF assms] .
  also have "\<dots> \<le> 2 powi (?e + 53)" using e by (intro power_int_increasing) simp_all
  finally have "x < 2 powi (?e + 53)" .
  then have "x / 2 powi ?e \<le> 2 powi (?e + 53) / 2 powi ?e"
    by (intro divide_right_mono) simp_all
  also have "\<dots> = 2 powi 53" by (simp add: power_int_add)
  also have "\<dots> = of_int (2 ^ 53)" by simp
  finally have "round_even (x / 2 powi ?e) \<le> round_even (of_int (2 ^ 53))"
    by (rule round_even_mono)
  then have "round_even (x / 2 powi ?e) \<le> 2 ^ 53" by (simp only: round_even_of_int)
  then have "real_of_int (round_even (x / 2 powi ?e)) \<le> 2 powi 53"
    by (metis of_int_le_iff of_int_numeral of_int_power power_int_numeral)
  then have "real_of_int (round_even (x / 2 powi ?e)) * 2 powi ?e \<le> 2 powi 53 * 2 powi ?e"
    by (intro mult_right_mono) simp_all
  also have "\<dots> = 2 powi (?e + 53)" by (simp add: power_int_add)
  finally show ?thesis using assms by (simp add: to_double_def)
qed

lemma to_double_lower:
  assumes "0 < x" "ulp_exp x = \<lfloor>log 2 x\<rfloor> - 52"
  shows "2 powi (ulp_exp x + 52) \<le> to_double x"
proof -
  let ?e = "ulp_exp x"
  have "2 powi (?e + 52) \<le> x" using log2_bounds(1)[OF assms(1)] assms(2) by simp
  then have "2 powi (?e + 52) / 2 powi ?e \<le> x / 2 powi ?e"
    by (intro divide_right_mono) simp_all
  moreover have "2 powi (?e + 52) / 2 powi ?e = (2::real) powi 52" by (simp add: power_int_add)
  moreover have "(2::real) powi 52 = of_int (2 ^ 52)" by simp
  ultimately have "real_of_int (2 ^ 52) \<le> x / 2 powi ?e" by simp
  then have "round_even (of_int (2 ^ 52)) \<le> round_even (x / 2 powi ?e)"
    by (rule round_even_mono)
  then have "2 ^ 52 \<le> round_even (x / 2 powi ?e)" by (simp only: round_even_of_int)
  then have "2 powi 52 \<le> real_of_int (round_even (x / 2 powi ?e))"
    by (metis of_int_le_iff of_int_numeral of_int_power power_int_numeral)
  then have A: "2 powi 52 * 2 powi ?e \<le> real_of_int (round_even (x / 2 powi ?e)) * 2 powi ?e"
    by (intro mult_right_mono) simp_all
  have B: "2 powi 52 * 2 powi ?e = (2::real) powi (?e + 52)" by (simp add: power_int_add)
  have C: "to_double x = real_of_int (round_even (x / 2 powi ?e)) * 2 powi ?e"
    using assms(1) by (simp add: to_double_def)
  from A[unfolded B] show ?thesis unfolding C .
qed

lemma to_double_mono:
  assumes "0 < x" "x \<le> y"
  shows "to_double x \<le> to_double y"
proof (cases "ulp_exp x = ulp_exp y")
  case True
  have "x / 2 powi ulp_exp y \<le> y / 2 powi ulp_exp y"
    using assms(2) by (intro divide_right_mono) simp_all
  then have "round_even (x / 2 powi ulp_exp y) \<le> round_even (y / 2 powi ulp_exp y)"
    by (rule round_even_mono)
  then have "real_of_int (round_even (x / 2 powi ulp_exp y)) * 2 powi ulp_exp y
           \<le> real_of_int (round_even (y / 2 powi ulp_exp y)) * 2 powi ulp_exp y"
    by (intro mult_right_mono) simp_all
  then show ?thesis using assms True by (simp add: to_double_def)
next
  case False
  have y: "0 < y" using assms by simp
  have lt: "ulp_exp x + 1 \<le> ulp_exp y" using ulp_exp_mono[OF assms] False by simp
  moreover have "- 1074 \<le> ulp_exp x" by (simp add: ulp_exp_def)
  ultimately have "ulp_exp y = \<lfloor>log 2 y\<rfloor> - 52" using y by (simp add: ulp_exp_def max_def split: if_splits)
  then have lo: "2 powi (ulp_exp y + 52) \<le> to_double y" using to_double_lower[OF y] by simp
  have "to_double x \<le> 2 powi (ulp_exp x + 53)" using assms(1) by (rule to_double_upper)
  also have "\<dots> \<le> 2 powi (ulp_exp y + 52)" using lt by (intro power_int_increasing) simp_all
  finally show ?thesis using lo by simp
qed

lemma to_double_ge_1: "1 \<le> x \<Longrightarrow> 1 \<le> to_double x"
  using to_double_mono[of 1 x] by (simp add: to_double_1)


lemma to_double_2: "to_double 2 = 2"
  using to_double_eval[of 1 2] by (simp add: round_even_def)

lemma to_double_4: "to_double 4 = 4"
  using to_double_eval[of 2 4] by (simp add: round_even_def)

lemma to_double_half: "to_double (1 / 2) = 1 / 2"
  using to_double_eval[of "- 1" "1 / 2"] by (simp add: round_even_def)

lemma to_double_2p53: "to_double 9007199254740992 = 9007199254740992"
  using to_double_eval[of 53 9007199254740992] by (simp add: round_even_def)

lemma to_double_2p53_1: "to_double 9007199254740993 = 9007199254740992"
  using to_double_eval[of 53 9007199254740993] by (simp add: round_even_def)

lemma to_double_2m53: "to_double (1 / 9007199254740992) = 1 / 9007199254740992"
  using to_double_eval[of "- 53" "1 / 9007199254740992"] by (simp add: round_even_def)







lemma to_double_2p1024: "to_double (2 ^ 1024) = 2 ^ 1024"
  using to_double_eval[of 1024 "2 ^ 1024"] by (simp add: round_even_def)

lemma int_to_double_2p1024: "int_to_double (2 ^ 1024) = Inl OverflowError"
proof -
  have "real_of_int (2 ^ 1024) = 2 ^ 1024" by simp
  then show ?thesis
    unfolding int_to_double_def by (simp only: to_double_2p1024) (simp add: finite_double_def)
qed



lemma InverseScaling_get_double_Inr:
  assumes "0 \<le> t" and "0 < p"
  shows "InverseScaling_get_double (InverseScaling_init lr p) t = Inr (FloatV y) \<longleftrightarrow>
           to_double (real_of_int (t + 1)) < 2 ^ 1024 \<and>
           to_double (to_double (real_of_int (t + 1)) powr p) < 2 ^ 1024 \<and>
           y = to_double (lr / to_double (to_double (real_of_int (t + 1)) powr p))"
proof -
  let ?x = "to_double (real_of_int (t + 1))"
  let ?r = "to_double (?x powr p)"
  have x: "1 \<le> ?x" using assms(1) by (intro to_double_ge_1) simp
  then have "1 \<le> ?x powr p" using assms(2) by (intro ge_one_powr_ge_zero) simp_all
  then have r: "1 \<le> ?r" by (rule to_double_ge_1)
  have ax: "\<bar>?x\<bar> = ?x" and ar: "\<bar>?r\<bar> = ?r" using x r by simp_all
  show ?thesis
  proof (cases "?x < 2 ^ 1024")
    case False
    then show ?thesis
      using ax by (simp add: InverseScaling_get_double_def InverseScaling_init_def
          py_pow_double_def int_to_double_def finite_double_def)
  next
    case True
    then have i: "int_to_double (t + 1) = Inr ?x"
      using ax by (simp add: int_to_double_def finite_double_def)
    show ?thesis
    proof (cases "?r < 2 ^ 1024")
      case False
      then show ?thesis
        using ar x assms(2) i True
        by (simp add: InverseScaling_get_double_def InverseScaling_init_def
            py_pow_double_def finite_double_def)
    next
      case T2: True
      then have "finite_double ?r = Inr ?r" using ar by (simp add: finite_double_def)
      then show ?thesis
        using x r assms(2) i True T2
        by (auto simp add: InverseScaling_get_double_def InverseScaling_init_def
            py_pow_double_def)
    qed
  qed
qed

subsection \<open>Cyclic\<close>

text \<open>
  Claim C1. For a Cyclic scheduler built by a successful construction (so \<open>lr1 \<ge> lr2\<close> and
  \<open>c\<close> is a positive int) and for every integer \<open>t\<close>, \<open>get(t)\<close> returns
  \<open>(1 - ti) * lr1 + ti * lr2\<close> with \<open>ti = (m + 1) / c\<close>, where \<open>m\<close> is the mathematical
  remainder of \<open>t - 1\<close> modulo \<open>c\<close>: the number with \<open>0 \<le> m < c\<close> that differs from
  \<open>t - 1\<close> by a multiple of \<open>c\<close>.
\<close>

theorem Cyclic_get_formula:
  assumes "Cyclic_init a b cv = Inr s"
  shows "\<exists>m. cv = PyInt (c s) \<and> 0 \<le> m \<and> m < c s \<and> (\<exists>q. t - 1 = q * c s + m) \<and>
           Cyclic_get s t =
             Inr ((1 - real_of_int (m + 1) / real_of_int (c s)) * a
                  + real_of_int (m + 1) / real_of_int (c s) * b)"
proof -
  from assms obtain n where n: "cv = PyInt n" "0 < n" "s = \<lparr>lr1 = a, lr2 = b, c = n\<rparr>"
    by (auto simp: Cyclic_init_Inr)
  let ?m = "(t - 1) mod n"
  have "0 \<le> ?m" "?m < n" using n(2) by simp_all
  moreover have "\<exists>q. t - 1 = q * n + ?m"
    by (rule exI[of _ "(t - 1) div n"]) simp
  moreover have "Cyclic_get s t =
             Inr ((1 - real_of_int (?m + 1) / real_of_int n) * a
                  + real_of_int (?m + 1) / real_of_int n * b)"
    using n(2) unfolding n(3) by (rule Cyclic_get_pos)
  ultimately show ?thesis unfolding n(3) using n(1) by (intro exI[of _ ?m]) simp
qed

theorem Cyclic_get_formula_witness:
  "Cyclic_init 3 1 (PyInt 4) = Inr \<lparr>lr1 = 3, lr2 = 1, c = 4\<rparr> \<and>
   (\<exists>m. 0 \<le> m \<and> m < 4 \<and> (\<exists>q. (-2) - 1 = q * 4 + m) \<and>
      Cyclic_get \<lparr>lr1 = 3, lr2 = 1, c = 4\<rparr> (-2) =
        Inr ((1 - real_of_int (m + 1) / 4) * 3 + real_of_int (m + 1) / 4 * 1))"
proof -
  have h: "Cyclic_init 3 1 (PyInt 4) = Inr \<lparr>lr1 = 3, lr2 = 1, c = 4\<rparr>" by (simp add: Cyclic_init_def)
  show ?thesis using h Cyclic_get_formula [OF h, of "-2"] by simp
qed

text \<open>
  Claim C2 says that \<open>get(1)\<close> equals \<open>lr1\<close>. It does not: at \<open>t = 1\<close> the remainder is
  \<open>0\<close> and \<open>ti = 1 / c\<close>, one step into the ramp. With \<open>lr1 = 1\<close>, \<open>lr2 = 0\<close>, \<open>c = 2\<close>
  the result is \<open>1/2\<close>.
\<close>

theorem Cyclic_get_1_counterexample:
  "Cyclic_init 1 0 (PyInt 2) = Inr \<lparr>lr1 = 1, lr2 = 0, c = 2\<rparr> \<and>
   Cyclic_get \<lparr>lr1 = 1, lr2 = 0, c = 2\<rparr> 1 = Inr (1 / 2) \<and>
   Cyclic_get \<lparr>lr1 = 1, lr2 = 0, c = 2\<rparr> 1 \<noteq> Inr (lr1 \<lparr>lr1 = 1, lr2 = 0, c = 2\<rparr>)"
  by (simp add: Cyclic_get_pos Cyclic_init_def)

text \<open>
  Claim C2, amended. For a validly constructed Cyclic scheduler, \<open>get(1)\<close> is the value of
  \<open>(1 - 1/c) * lr1 + (1/c) * lr2\<close>: the interpolation with \<open>ti = 1/c\<close>.
\<close>

theorem Cyclic_get_1:
  assumes "Cyclic_init a b cv = Inr s"
  shows "Cyclic_get s 1 =
           Inr ((1 - 1 / real_of_int (c s)) * a + 1 / real_of_int (c s) * b)"
proof -
  from assms obtain n where n: "cv = PyInt n" "0 < n" "s = \<lparr>lr1 = a, lr2 = b, c = n\<rparr>"
    by (auto simp: Cyclic_init_Inr)
  show ?thesis unfolding n(3) using Cyclic_get_pos[OF n(2), of a b 1] by simp
qed

theorem Cyclic_get_1_witness:
  "Cyclic_init 3 1 (PyInt 4) = Inr \<lparr>lr1 = 3, lr2 = 1, c = 4\<rparr> \<and>
   Cyclic_get \<lparr>lr1 = 3, lr2 = 1, c = 4\<rparr> 1 = Inr ((1 - 1 / 4) * 3 + 1 / 4 * 1)"
proof -
  have h: "Cyclic_init 3 1 (PyInt 4) = Inr \<lparr>lr1 = 3, lr2 = 1, c = 4\<rparr>"
    by (simp add: Cyclic_init_def)
  show ?thesis using h Cyclic_get_1 [OF h] by simp
qed




text \<open>
  Claim C5 says that \<open>get(0)\<close> equals \<open>get(1)\<close>. It does not: \<open>(0 - 1) % c\<close> is \<open>c - 1\<close>,
  so \<open>t = 0\<close> is the last point of a cycle (\<open>ti = 1\<close>), while \<open>t = 1\<close> is the first
  (\<open>ti = 1 / c\<close>). With \<open>lr1 = 1\<close>, \<open>lr2 = 0\<close>, \<open>c = 2\<close>: \<open>get(0) = 0\<close> and
  \<open>get(1) = 1/2\<close>.
\<close>

theorem Cyclic_get_0_counterexample:
  "Cyclic_init 1 0 (PyInt 2) = Inr \<lparr>lr1 = 1, lr2 = 0, c = 2\<rparr> \<and>
   Cyclic_get \<lparr>lr1 = 1, lr2 = 0, c = 2\<rparr> 0 = Inr 0 \<and>
   Cyclic_get \<lparr>lr1 = 1, lr2 = 0, c = 2\<rparr> 1 = Inr (1 / 2) \<and>
   Cyclic_get \<lparr>lr1 = 1, lr2 = 0, c = 2\<rparr> 0 \<noteq> Cyclic_get \<lparr>lr1 = 1, lr2 = 0, c = 2\<rparr> 1"
  by (simp add: Cyclic_get_pos Cyclic_init_def)

text \<open>
  Claim C5, amended. For a validly constructed Cyclic scheduler, \<open>get(0)\<close> equals \<open>lr2\<close>,
  the value \<open>get(c)\<close> at the end of a cycle (\<open>ti = 1\<close>), whereas \<open>get(1)\<close> is the value of
  \<open>(1 - 1/c) * lr1 + (1/c) * lr2\<close> (\<open>ti = 1/c\<close>).
\<close>

theorem Cyclic_get_0:
  assumes "Cyclic_init a b cv = Inr s"
  shows "Cyclic_get s 0 = Inr b \<and> Cyclic_get s 0 = Cyclic_get s (c s) \<and>
         Cyclic_get s 1 = Inr ((1 - 1 / real_of_int (c s)) * a + 1 / real_of_int (c s) * b)"
proof -
  from assms(1) obtain n where n: "cv = PyInt n" "0 < n" "s = \<lparr>lr1 = a, lr2 = b, c = n\<rparr>"
    by (auto simp: Cyclic_init_Inr)
  have "- 1 mod n = n - 1" using n(2) by (rule zmod_minus1)
  then have "(0 - 1) mod n = n - 1" by simp
  then have g0: "Cyclic_get s 0 = Inr b"
    unfolding n(3) using n(2) by (simp add: Cyclic_get_pos)
  have "(n - 1) mod n = n - 1" using n(2) by (intro mod_pos_pos_trivial) simp_all
  then have gc: "Cyclic_get s (c s) = Inr b"
    unfolding n(3) using n(2) by (simp add: Cyclic_get_pos)
  have g1: "Cyclic_get s 1 =
              Inr ((1 - 1 / real_of_int (c s)) * a + 1 / real_of_int (c s) * b)"
    unfolding n(3) using Cyclic_get_pos[OF n(2), of a b 1] by simp
  from g0 gc g1 show ?thesis by simp
qed

theorem Cyclic_get_0_witness:
  "Cyclic_init 3 1 (PyInt 4) = Inr \<lparr>lr1 = 3, lr2 = 1, c = 4\<rparr> \<and>
   Cyclic_get \<lparr>lr1 = 3, lr2 = 1, c = 4\<rparr> 0 = Inr 1 \<and>
   Cyclic_get \<lparr>lr1 = 3, lr2 = 1, c = 4\<rparr> 4 = Inr 1 \<and>
   Cyclic_get \<lparr>lr1 = 3, lr2 = 1, c = 4\<rparr> 1 = Inr ((1 - 1 / 4) * 3 + 1 / 4 * 1)"
proof -
  have h: "Cyclic_init 3 1 (PyInt 4) = Inr \<lparr>lr1 = 3, lr2 = 1, c = 4\<rparr>"
    by (simp add: Cyclic_init_def)
  show ?thesis using h Cyclic_get_0 [OF h] by (simp add: Cyclic_get_pos)
qed

text \<open>
  Claim C6. Construction of a Cyclic scheduler raises (the failed \<open>assert\<close>, an
  \<open>AssertionError\<close>, is the invalid-parameter condition) exactly when \<open>lr1 < lr2\<close> or \<open>c\<close>
  is not a positive int, and succeeds otherwise; every scheduler it returns holds the
  arguments, with \<open>lr2 \<le> lr1\<close> and \<open>c > 0\<close>; it rejects \<open>lr1 = 1, lr2 = 2\<close>, it rejects
  \<open>c = 0\<close> and it rejects \<open>c = 2.5\<close>.
\<close>

theorem Cyclic_init_rejects:
  "(Cyclic_init a b cv = Inl AssertionError \<longleftrightarrow> a < b \<or> \<not> (\<exists>n. cv = PyInt n \<and> 0 < n)) \<and>
   ((\<exists>s. Cyclic_init a b cv = Inr s) \<longleftrightarrow> b \<le> a \<and> (\<exists>n. cv = PyInt n \<and> 0 < n)) \<and>
   (\<forall>s. Cyclic_init a b cv = Inr s \<longrightarrow>
      lr1 s = a \<and> lr2 s = b \<and> cv = PyInt (c s) \<and> lr2 s \<le> lr1 s \<and> 0 < c s) \<and>
   Cyclic_init 1 2 cv = Inl AssertionError \<and>
   Cyclic_init a b (PyInt 0) = Inl AssertionError \<and>
   Cyclic_init a b (PyFloat (5 / 2)) = Inl AssertionError"
proof -
  have 1: "Cyclic_init a b cv = Inl AssertionError \<longleftrightarrow> a < b \<or> \<not> (\<exists>n. cv = PyInt n \<and> 0 < n)"
    by (cases cv) (auto simp: Cyclic_init_def)
  have 2: "(\<exists>s. Cyclic_init a b cv = Inr s) \<longleftrightarrow> b \<le> a \<and> (\<exists>n. cv = PyInt n \<and> 0 < n)"
    by (auto simp: Cyclic_init_Inr)
  have 3: "\<forall>s. Cyclic_init a b cv = Inr s \<longrightarrow>
      lr1 s = a \<and> lr2 s = b \<and> cv = PyInt (c s) \<and> lr2 s \<le> lr1 s \<and> 0 < c s"
    by (auto simp: Cyclic_init_Inr)
  have 4: "Cyclic_init 1 2 cv = Inl AssertionError" by (simp add: Cyclic_init_def)
  have 5: "Cyclic_init a b (PyInt 0) = Inl AssertionError" by (simp add: Cyclic_init_def)
  have 6: "Cyclic_init a b (PyFloat (5 / 2)) = Inl AssertionError" by (simp add: Cyclic_init_def)
  from 1 2 3 4 5 6 show ?thesis by blast
qed

theorem Cyclic_init_rejects_witness:
  "Cyclic_init 3 1 (PyInt 4) = Inr \<lparr>lr1 = 3, lr2 = 1, c = 4\<rparr> \<and>
   Cyclic_init 1 2 (PyInt 4) = Inl AssertionError \<and>
   Cyclic_init 3 1 (PyInt 0) = Inl AssertionError \<and>
   Cyclic_init 3 1 (PyFloat (5 / 2)) = Inl AssertionError"
  using Cyclic_init_rejects [of 3 1 "PyInt 4"] by (simp add: Cyclic_init_def)

subsection \<open>InverseScaling\<close>

text \<open>
  Claim C8 says that for every InverseScaling scheduler the sequence \<open>get(0), get(1), \<dots>\<close>
  is strictly decreasing whenever \<open>power > 0\<close>, and that \<open>get(t)\<close> has a value for every
  \<open>t \<ge> 0\<close>. Three things stand against it. The constructor does not validate
  \<open>learning_rate\<close>, and with a negative one the sequence increases: for
  \<open>learning_rate = -1\<close>, \<open>power = 1\<close>, \<open>get(0) = -1\<close> and \<open>get(1) = -1/2\<close>. With a positive
  one, rounding produces ties: for \<open>learning_rate = 1\<close>, \<open>power = 1\<close>, the ints \<open>2\<^sup>5\<^sup>3\<close> and
  \<open>2\<^sup>5\<^sup>3 + 1\<close> convert to the same double, so \<open>get(2\<^sup>5\<^sup>3 - 1) = get(2\<^sup>5\<^sup>3)\<close>. And an int
  too large for a float makes \<open>pow\<close> raise: \<open>get(2\<^sup>1\<^sup>0\<^sup>2\<^sup>4 - 1)\<close> is an \<open>OverflowError\<close>.
\<close>

theorem InverseScaling_get_counterexample:
  "0 < power (InverseScaling_init (- 1) 1) \<and>
   InverseScaling_get (InverseScaling_init (- 1) 1) 0 = Inr (FloatV (- 1)) \<and>
   InverseScaling_get (InverseScaling_init (- 1) 1) 1 = Inr (FloatV (- 1 / 2)) \<and>
   \<not> ((- 1 / 2 :: real) < - 1) \<and>
   0 < power (InverseScaling_init 1 1) \<and>
   0 < InverseScaling.learning_rate (InverseScaling_init 1 1) \<and>
   InverseScaling_get_double (InverseScaling_init 1 1) 9007199254740991
     = Inr (FloatV (1 / 9007199254740992)) \<and>
   InverseScaling_get_double (InverseScaling_init 1 1) 9007199254740992
     = Inr (FloatV (1 / 9007199254740992)) \<and>
   InverseScaling_get_double (InverseScaling_init 1 1) (2 ^ 1024 - 1) = Inl OverflowError"
proof -
  have 1: "InverseScaling_get (InverseScaling_init (- 1) 1) 0 = Inr (FloatV (- 1))"
    by (simp add: InverseScaling_get_nonneg)
  have 2: "InverseScaling_get (InverseScaling_init (- 1) 1) 1 = Inr (FloatV (- 1 / 2))"
    by (simp add: InverseScaling_get_nonneg)
  have 3: "InverseScaling_get_double (InverseScaling_init 1 1) 9007199254740991
     = Inr (FloatV (1 / 9007199254740992))"
    by (simp add: InverseScaling_get_double_Inr to_double_2p53 to_double_2m53)
  have 4: "InverseScaling_get_double (InverseScaling_init 1 1) 9007199254740992
     = Inr (FloatV (1 / 9007199254740992))"
    by (simp add: InverseScaling_get_double_Inr to_double_2p53_1 to_double_2p53 to_double_2m53)
  have "(2::int) ^ 1024 - 1 + 1 = 2 ^ 1024" by simp
  then have "py_pow_double (2 ^ 1024 - 1 + 1) 1 = Inl OverflowError"
    unfolding py_pow_double_def by (simp only: int_to_double_2p1024 bind_Inl)
  then have 5: "InverseScaling_get_double (InverseScaling_init 1 1) (2 ^ 1024 - 1)
     = Inl OverflowError"
    unfolding InverseScaling_get_double_def InverseScaling_init_def
    by (simp only: InverseScaling.simps bind_Inl)
  have 6: "0 < power (InverseScaling_init (- 1) 1)" "0 < power (InverseScaling_init 1 1)"
    "0 < InverseScaling.learning_rate (InverseScaling_init 1 1)"
    "\<not> ((- 1 / 2 :: real) < - 1)"
    by (simp_all add: InverseScaling_init_def)
  from 1 2 3 4 5 6 show ?thesis by blast
qed

text \<open>
  Claim C8, amended. For every InverseScaling scheduler and every \<open>t \<ge> 0\<close> at which
  \<open>get(t)\<close> returns a float (it raises once \<open>t + 1\<close> or its power leaves the range of
  floats), \<open>get(t)\<close> is the value of \<open>learning_rate / (t + 1)\<^sup>p\<close> with \<open>p = power\<close>. When
  \<open>power > 0\<close> and \<open>learning_rate > 0\<close> the sequence is non-increasing in double precision:
  if \<open>get(u)\<close> returns \<open>y\<close> at a later \<open>u > t\<close>, then \<open>get(t)\<close> returns some \<open>x \<ge> y\<close>. With
  \<open>learning_rate = 1\<close> and \<open>power = 1/2\<close>, \<open>get(0) = 1\<close> and \<open>get(3) = 1/2\<close>, in exact
  arithmetic and in double precision.
\<close>

theorem InverseScaling_get_formula:
  assumes "0 \<le> t"
  shows "(\<forall>y. InverseScaling_get_double (InverseScaling_init lr p) t = Inr (FloatV y) \<longrightarrow>
            InverseScaling_get (InverseScaling_init lr p) t =
              Inr (FloatV (lr / real_of_int (t + 1) powr p))) \<and>
         (0 < p \<and> 0 < lr \<longrightarrow>
            (\<forall>u y. t < u \<and>
                   InverseScaling_get_double (InverseScaling_init lr p) u = Inr (FloatV y) \<longrightarrow>
               (\<exists>x. InverseScaling_get_double (InverseScaling_init lr p) t = Inr (FloatV x) \<and>
                    y \<le> x))) \<and>
         InverseScaling_get (InverseScaling_init 1 (1 / 2)) 0 = Inr (FloatV 1) \<and>
         InverseScaling_get (InverseScaling_init 1 (1 / 2)) 3 = Inr (FloatV (1 / 2)) \<and>
         InverseScaling_get_double (InverseScaling_init 1 (1 / 2)) 0 = Inr (FloatV 1) \<and>
         InverseScaling_get_double (InverseScaling_init 1 (1 / 2)) 3 = Inr (FloatV (1 / 2))"
proof -
  have 1: "InverseScaling_get (InverseScaling_init lr p) t =
           Inr (FloatV (lr / real_of_int (t + 1) powr p))"
    using assms by (rule InverseScaling_get_nonneg)
  have 2: "\<exists>x. InverseScaling_get_double (InverseScaling_init lr p) t = Inr (FloatV x) \<and> y \<le> x"
    if p: "0 < p" and lr: "0 < lr" and tu: "t < u"
      and gu: "InverseScaling_get_double (InverseScaling_init lr p) u = Inr (FloatV y)" for u y
  proof -
    let ?xt = "to_double (real_of_int (t + 1))"
    let ?xu = "to_double (real_of_int (u + 1))"
    let ?rt = "to_double (?xt powr p)"
    let ?ru = "to_double (?xu powr p)"
    have u: "0 \<le> u" using assms tu by simp
    from gu have U: "?xu < 2 ^ 1024" "?ru < 2 ^ 1024" "y = to_double (lr / ?ru)"
      unfolding InverseScaling_get_double_Inr[OF u p] by blast+
    have xt1: "1 \<le> ?xt" using assms by (intro to_double_ge_1) simp
    have xtu: "?xt \<le> ?xu" using assms tu by (intro to_double_mono) simp_all
    have pw1: "1 \<le> ?xt powr p" using xt1 p by (intro ge_one_powr_ge_zero) simp_all
    have pw: "?xt powr p \<le> ?xu powr p" using xt1 xtu p by (intro powr_mono2) simp_all
    have rt1: "1 \<le> ?rt" using pw1 by (rule to_double_ge_1)
    have pw0: "0 < ?xt powr p" using pw1 by linarith
    have rtu: "?rt \<le> ?ru" using pw0 pw by (rule to_double_mono)
    have ru0: "0 < ?ru" using rt1 rtu by simp
    have "lr / ?ru \<le> lr / ?rt" using rtu rt1 lr by (intro divide_left_mono) simp_all
    moreover have "0 < lr / ?ru" using lr ru0 by simp
    ultimately have le: "to_double (lr / ?ru) \<le> to_double (lr / ?rt)"
      by (intro to_double_mono)
    have "InverseScaling_get_double (InverseScaling_init lr p) t = Inr (FloatV (to_double (lr / ?rt)))"
      unfolding InverseScaling_get_double_Inr[OF assms p] using U(1,2) xtu rtu by simp
    then show ?thesis using le U(3) by blast
  qed
  have 3: "InverseScaling_get (InverseScaling_init 1 (1 / 2)) 0 = Inr (FloatV 1)"
    by (simp add: InverseScaling_get_nonneg)
  have s4: "(4::real) powr (1 / 2) = 2" by (simp add: powr_half_sqrt)
  then have 4: "InverseScaling_get (InverseScaling_init 1 (1 / 2)) 3 = Inr (FloatV (1 / 2))"
    by (simp add: InverseScaling_get_nonneg)
  have 5: "InverseScaling_get_double (InverseScaling_init 1 (1 / 2)) 0 = Inr (FloatV 1)"
    by (simp add: InverseScaling_get_double_Inr to_double_1)
  have 6: "InverseScaling_get_double (InverseScaling_init 1 (1 / 2)) 3 = Inr (FloatV (1 / 2))"
    using s4 by (simp add: InverseScaling_get_double_Inr to_double_4 to_double_2 to_double_half)
  from 1 2 3 4 5 6 show ?thesis by blast
qed

theorem InverseScaling_get_formula_witness:
  "(0::int) \<le> 0 \<and> (0::real) < 1 / 2 \<and> (0::real) < 1 \<and> (0::int) < 3 \<and>
   InverseScaling_get (InverseScaling_init 1 (1 / 2)) 0 = Inr (FloatV 1) \<and>
   InverseScaling_get (InverseScaling_init 1 (1 / 2)) 3 = Inr (FloatV (1 / 2)) \<and>
   InverseScaling_get_double (InverseScaling_init 1 (1 / 2)) 3 = Inr (FloatV (1 / 2)) \<and>
   InverseScaling_get_double (InverseScaling_init 1 (1 / 2)) 0 = Inr (FloatV 1) \<and>
   (1 / 2 :: real) \<le> 1"
proof -
  have h: "(0::int) \<le> 0" by simp
  show ?thesis using InverseScaling_get_formula [OF h, of 1 "1 / 2"] by simp
qed


subsection \<open>Optimal\<close>

text \<open>
  Claim C3. When \<open>alpha > 0\<close> and \<open>loss.gradient(-typw, 1.0)\<close> returns \<open>g\<close>, construction
  computes \<open>typw = sqrt (1 / sqrt alpha)\<close>, divides it by \<open>max 1 g\<close> to get
  \<open>initial_eta0\<close>, and stores \<open>t0 = 1 / (initial_eta0 * alpha)\<close>; \<open>get(t)\<close> returns
  \<open>1 / (alpha * (t0 + t))\<close> whenever that denominator is not zero. With a loss whose
  gradient is always \<open>1\<close> and \<open>alpha = 1/10000\<close>, \<open>t0 = 1000\<close> and \<open>get(0) = 10\<close>.
\<close>

theorem Optimal_init_get:
  assumes "0 < a" and "gradient L (- sqrt (1 / sqrt a)) 1 = Inr g"
  shows "Optimal_typw a = Inr (sqrt (1 / sqrt a)) \<and>
         Optimal_init L a =
           Inr \<lparr>loss = L, alpha = a, t0 = 1 / (sqrt (1 / sqrt a) / max 1 g * a)\<rparr> \<and>
         (\<forall>s t. Optimal_init L a = Inr s \<and> alpha s * (t0 s + real_of_int t) \<noteq> 0 \<longrightarrow>
                Optimal_get s t = Inr (1 / (alpha s * (t0 s + real_of_int t)))) \<and>
         Optimal_init \<lparr>gradient = \<lambda>y_pred y_true. Inr 1\<rparr> (1 / 10000) =
           Inr \<lparr>loss = \<lparr>gradient = \<lambda>y_pred y_true. Inr 1\<rparr>, alpha = 1 / 10000, t0 = 1000\<rparr> \<and>
         Optimal_get
           \<lparr>loss = \<lparr>gradient = \<lambda>y_pred y_true. Inr 1\<rparr>, alpha = 1 / 10000, t0 = 1000\<rparr> 0 = Inr 10"
proof -
  have 1: "Optimal_typw a = Inr (sqrt (1 / sqrt a))" using assms(1) by (rule Optimal_typw_pos)
  have 2: "Optimal_init L a =
           Inr \<lparr>loss = L, alpha = a, t0 = 1 / (sqrt (1 / sqrt a) / max 1 g * a)\<rparr>"
    using assms by (rule Optimal_init_pos)
  have 3: "\<forall>s t. Optimal_init L a = Inr s \<and> alpha s * (t0 s + real_of_int t) \<noteq> 0 \<longrightarrow>
                Optimal_get s t = Inr (1 / (alpha s * (t0 s + real_of_int t)))"
    by (simp add: Optimal_get_def truediv_def)
  have "Optimal_init \<lparr>gradient = \<lambda>y_pred y_true. Inr 1\<rparr> (1 / 10000) =
           Inr \<lparr>loss = \<lparr>gradient = \<lambda>y_pred y_true. Inr 1\<rparr>, alpha = 1 / 10000,
                t0 = 1 / (sqrt (1 / sqrt (1 / 10000)) / max 1 1 * (1 / 10000))\<rparr>"
    by (rule Optimal_init_pos) simp_all
  then have 4: "Optimal_init \<lparr>gradient = \<lambda>y_pred y_true. Inr 1\<rparr> (1 / 10000) =
           Inr \<lparr>loss = \<lparr>gradient = \<lambda>y_pred y_true. Inr 1\<rparr>, alpha = 1 / 10000, t0 = 1000\<rparr>"
    by (simp add: sqrt_10000 sqrt_100)
  have 5: "Optimal_get
           \<lparr>loss = \<lparr>gradient = \<lambda>y_pred y_true. Inr 1\<rparr>, alpha = 1 / 10000, t0 = 1000\<rparr> 0 = Inr 10"
    by (simp add: Optimal_get_def truediv_def)
  from 1 2 3 4 5 show ?thesis by blast
qed

theorem Optimal_init_get_witness:
  "(0::real) < 1 \<and>
   gradient \<lparr>gradient = \<lambda>y_pred y_true. Inr 2\<rparr> (- sqrt (1 / sqrt 1)) 1 = Inr 2 \<and>
   Optimal_init \<lparr>gradient = \<lambda>y_pred y_true. Inr 2\<rparr> 1 =
     Inr \<lparr>loss = \<lparr>gradient = \<lambda>y_pred y_true. Inr 2\<rparr>, alpha = 1, t0 = 2\<rparr> \<and>
   Optimal_get \<lparr>loss = \<lparr>gradient = \<lambda>y_pred y_true. Inr 2\<rparr>, alpha = 1, t0 = 2\<rparr> 3 = Inr (1 / 5)"
proof -
  have h: "(0::real) < 1" by simp
  have k: "gradient \<lparr>gradient = \<lambda>y_pred y_true. Inr 2\<rparr> (- sqrt (1 / sqrt 1)) 1 = Inr 2"
    by simp
  show ?thesis using h k Optimal_init_get [OF h k] by (simp add: Optimal_get_def truediv_def)
qed

text \<open>
  Claim C7. Construction of an Optimal scheduler with \<open>alpha \<le> 0\<close> raises while computing
  \<open>typw\<close>, whatever the loss object is (it is not called): \<open>math.sqrt\<close> raises
  \<open>ValueError\<close> (math domain error) for \<open>alpha < 0\<close>, and for \<open>alpha = 0\<close> the division
  \<open>1. / math.sqrt(0)\<close> raises \<open>ZeroDivisionError\<close>. Both are domain errors of a real-valued
  computation.
\<close>

theorem Optimal_init_nonpositive_alpha:
  assumes "a \<le> 0"
  shows "Optimal_typw a = Inl (if a = 0 then ZeroDivisionError else ValueError) \<and>
         Optimal_init L a = Inl (if a = 0 then ZeroDivisionError else ValueError) \<and>
         Optimal_init L 0 = Inl ZeroDivisionError"
  using assms by (simp add: Optimal_init_def Optimal_typw_def math_sqrt_def truediv_def)

theorem Optimal_init_nonpositive_alpha_witness:
  "(- 4 :: real) \<le> 0 \<and>
   Optimal_init \<lparr>gradient = \<lambda>y_pred y_true. Inl OtherError\<rparr> (- 4) = Inl ValueError \<and>
   Optimal_init \<lparr>gradient = \<lambda>y_pred y_true. Inl OtherError\<rparr> 0 = Inl ZeroDivisionError"
proof -
  have h: "(- 4 :: real) \<le> 0" by simp
  show ?thesis
    using h Optimal_init_nonpositive_alpha [OF h, of "\<lparr>gradient = \<lambda>y_pred y_true. Inl OtherError\<rparr>"]
    by simp
qed



end
